theory Spec2Isabelle
  imports Main "HOL-Library.Multiset"
begin

section \<open>Package manifest: identifiers\<close>

text \<open>
  \<^verbatim>\<open>type Identifier struct { Kind, Name, Namespace string }\<close>
  (pkg/kubernetes/manifest/identifier.go). A Go struct of three strings is comparable
  with \<^verbatim>\<open>==\<close> field by field and can be the key of a map.
\<close>

record Identifier =
  Kind :: string
  Name :: string
  Namespace :: string

text \<open>
  Modelled from the spec: the type \<^verbatim>\<open>Manifest\<close> and its accessors \<^verbatim>\<open>Kind()\<close>,
  \<^verbatim>\<open>Metadata().Name()\<close> and \<^verbatim>\<open>Metadata().Namespace()\<close> are declared in files of package
  manifest that are not part of the sources at hand. The spec gives a manifest a kind, a
  metadata block (name, namespace, labels) and an opaque body; the resource version is
  listed with the parts that the identity ignores.
\<close>

record ObjectMeta =
  meta_name :: string
  meta_namespace :: string
  meta_labels :: "(string \<times> string) list"
  meta_resourceVersion :: string

record Manifest =
  manifest_kind :: string
  manifest_metadata :: ObjectMeta
  manifest_body :: string

text \<open>\<^verbatim>\<open>func (m Manifest) Identifier() Identifier\<close>\<close>

definition Identifier :: "Manifest \<Rightarrow> Identifier" where
  "Identifier m =
     \<lparr> Kind = manifest_kind m,
       Name = meta_name (manifest_metadata m),
       Namespace = meta_namespace (manifest_metadata m) \<rparr>"

section \<open>Errors, results and collaborators\<close>

text \<open>
  A Go \<^verbatim>\<open>error\<close> value that is not nil. \<^verbatim>\<open>errors.Wrap\<close> and \<^verbatim>\<open>errors.Wrapf\<close>
  (github.com/pkg/errors) annotate a non-nil error with a message and keep the cause.
  A nil error is \<open>None\<close> of \<open>error option\<close>.
\<close>

datatype error = Err string | Wrapped error string

definition Wrap :: "error \<Rightarrow> string \<Rightarrow> error" where
  "Wrap err msg = Wrapped err msg"

text \<open>
  What a call does: it returns its results, it panics, or it never returns because it
  waits for a message that nobody sends. A panic comes from the use of a nil function
  or a nil pointer, or from a goroutine the call has started: a panic that is not
  recovered, in whatever goroutine, ends the process.
\<close>

datatype 'a outcome = Returns 'a | Panics | Blocks

text \<open>
  Modelled from the spec: the semantic-version type (github.com/Masterminds/semver) is an
  imported library. The spec asks for semantic-version comparison, not string comparison:
  major, minor and patch are compared as numbers in this order, and with equal numbers a
  version with a pre-release tag is lower than the one without. The order of two
  pre-release tags is the library's \<^verbatim>\<open>comparePrerelease\<close>, taken as a parameter.
\<close>

record Version =
  Major :: nat
  Minor :: nat
  Patch :: nat
  Prerelease :: string
  BuildMetadata :: string

definition compareSegment :: "nat \<Rightarrow> nat \<Rightarrow> int" where
  "compareSegment v w = (if v < w then - 1 else if v > w then 1 else 0)"

definition Compare :: "(string \<Rightarrow> string \<Rightarrow> int) \<Rightarrow> Version \<Rightarrow> Version \<Rightarrow> int" where
  "Compare comparePrerelease v w =
     (if compareSegment (Major v) (Major w) \<noteq> 0 then compareSegment (Major v) (Major w)
      else if compareSegment (Minor v) (Minor w) \<noteq> 0 then compareSegment (Minor v) (Minor w)
      else if compareSegment (Patch v) (Patch w) \<noteq> 0 then compareSegment (Patch v) (Patch w)
      else if Prerelease v = [] \<and> Prerelease w = [] then 0
      else if Prerelease v = [] then 1
      else if Prerelease w = [] then - 1
      else comparePrerelease (Prerelease v) (Prerelease w))"

definition LessThan :: "(string \<Rightarrow> string \<Rightarrow> int) \<Rightarrow> Version \<Rightarrow> Version \<Rightarrow> bool" where
  "LessThan comparePrerelease v w = (Compare comparePrerelease v w < 0)"

text \<open>The value of \<^verbatim>\<open>semver.MustParse("1.13.0")\<close>.\<close>

definition MustParse_1_13_0 :: Version where
  "MustParse_1_13_0 =
     \<lparr> Major = 1, Minor = 13, Patch = 0, Prerelease = [], BuildMetadata = [] \<rparr>"

text \<open>
  Modelled from the spec: \<^verbatim>\<open>v1alpha1.Config\<close> (pkg/spec/v1alpha1) is not part of the
  sources at hand. The code reads \<^verbatim>\<open>Spec.APIServer\<close>, \<^verbatim>\<open>Spec.Namespace\<close>,
  \<^verbatim>\<open>Spec.DiffStrategy\<close> and the result of \<^verbatim>\<open>Metadata.NameLabel()\<close>; the spec lists the
  same four: target namespace, API server locator, optional diff-strategy name and the
  environment's name label.
\<close>

record EnvMetadata =
  NameLabel :: string

record EnvSpec =
  APIServer :: string
  EnvNamespace :: string
  DiffStrategy :: string

record Config =
  Metadata :: EnvMetadata
  Spec :: EnvSpec

text \<open>
  Modelled from the spec: \<^verbatim>\<open>client.Info\<close>, \<^verbatim>\<open>client.ApplyOpts\<close> and the interface
  \<^verbatim>\<open>client.Client\<close> (pkg/kubernetes/client) are not part of the sources at hand. The
  cluster client is an external collaborator; each of its operations is a field of the
  record, a function from the arguments of the call to the Go result tuple. A pointer
  result is an \<open>option\<close> (nil is \<open>None\<close>).
\<close>

record Info =
  ServerVersion :: Version
  ClusterName :: string
  ClusterServer :: string
  ContextName :: string

record ApplyOpts =
  AutoApprove :: bool

type_synonym Differ = "Manifest list \<Rightarrow> string option \<times> error option"

record Client =
  ctl_Info :: "Info option \<times> error option"
  ctl_GetByLabels :: "string \<Rightarrow> string \<Rightarrow> (string \<rightharpoonup> string) \<Rightarrow> Manifest list \<times> error option"
  ctl_DiffServerSide :: Differ
  ctl_Apply :: "Manifest list \<Rightarrow> ApplyOpts \<Rightarrow> error option"

section \<open>Package kubernetes\<close>

text \<open>
  \<^verbatim>\<open>type Kubernetes struct { Env; ctl; info; differs map[string]Differ }\<close>.
  A Go map from strategy names to functions is a partial function; reading a name that
  is not a key gives the nil function.
\<close>

record Kubernetes =
  Env :: Config
  ctl :: Client
  info :: Info
  differs :: "string \<rightharpoonup> Differ"

text \<open>
  \<^verbatim>\<open>func New(c v1alpha1.Config) (*Kubernetes, error)\<close>. The parameters \<open>client_New\<close>
  (the constructor of package client), \<open>SubsetDiffer\<close> (defined in another file of this
  package) and \<open>comparePrerelease\<close> stand for code outside the sources at hand.
  \<^verbatim>\<open>ctl.Info()\<close> on a nil client and \<^verbatim>\<open>info.ServerVersion\<close> or \<^verbatim>\<open>*info\<close> on a nil
  pointer panic.
\<close>

definition New ::
  "(string \<Rightarrow> Client option \<times> error option) \<Rightarrow> (Client \<Rightarrow> Differ) \<Rightarrow>
   (string \<Rightarrow> string \<Rightarrow> int) \<Rightarrow> Config \<Rightarrow> (Kubernetes option \<times> error option) outcome" where
  "New client_New SubsetDiffer comparePrerelease c =
     (case client_New (APIServer (Spec c)) of
        (_, Some err) \<Rightarrow> Returns (None, Some (Wrap err ''creating client''))
      | (None, None) \<Rightarrow> Panics
      | (Some ctl', None) \<Rightarrow>
          (case ctl_Info ctl' of
             (_, Some err) \<Rightarrow> Returns (None, Some err)
           | (None, None) \<Rightarrow> Panics
           | (Some info', None) \<Rightarrow>
               (let c1 =
                  (if DiffStrategy (Spec c) = []
                   then
                     (let c2 = c\<lparr>Spec := (Spec c)\<lparr>DiffStrategy := ''native''\<rparr>\<rparr>
                      in if LessThan comparePrerelease (ServerVersion info') MustParse_1_13_0
                         then c2\<lparr>Spec := (Spec c2)\<lparr>DiffStrategy := ''subset''\<rparr>\<rparr>
                         else c2)
                   else c)
                in Returns
                     (Some \<lparr> Env = c1, ctl = ctl', info = info',
                             differs = [''native'' \<mapsto> ctl_DiffServerSide ctl',
                                        ''subset'' \<mapsto> SubsetDiffer ctl'] \<rparr>,
                      None))))"

text \<open>
  \<^verbatim>\<open>type DiffOpts struct { Summarize bool; Strategy string }\<close> and
  \<^verbatim>\<open>func (k *Kubernetes) Diff(state manifest.List, opts DiffOpts) (*string, error)\<close>.
  \<open>Diffstat\<close> stands for \<^verbatim>\<open>util.Diffstat\<close>, which is outside the sources at hand.
  \<^verbatim>\<open>k.differs[strategy](state)\<close> calls whatever the map holds under the name: for a
  name that is not a key this is the nil function, and calling it panics.
\<close>

record DiffOpts =
  Summarize :: bool
  Strategy :: string

definition Diff ::
  "(string \<Rightarrow> string option \<times> error option) \<Rightarrow> Kubernetes \<Rightarrow> Manifest list \<Rightarrow> DiffOpts \<Rightarrow>
   (string option \<times> error option) outcome" where
  "Diff Diffstat k state opts =
     (let strategy = DiffStrategy (Spec (Env k));
          strategy = (if Strategy opts \<noteq> [] then Strategy opts else strategy)
      in case differs k strategy of
           None \<Rightarrow> Panics
         | Some differ \<Rightarrow>
             (case differ state of
                (_, Some err) \<Rightarrow> Returns (None, Some err)
              | (None, None) \<Rightarrow> Returns (None, None)
              | (Some d, None) \<Rightarrow>
                  if Summarize opts then Returns (Diffstat d) else Returns (Some d, None)))"

text \<open>\<^verbatim>\<open>func (k *Kubernetes) Info() client.Info\<close>\<close>

definition Info :: "Kubernetes \<Rightarrow> Info" where
  "Info k = info k"

section \<open>Orphan detection\<close>

text \<open>
  Modelled from the spec: the constant \<^verbatim>\<open>LabelEnvironment\<close> is declared in another file
  of package kubernetes. The spec only says that the label key is fixed; no statement
  below depends on its text.
\<close>

definition LabelEnvironment :: string where
  "LabelEnvironment = ''tanka.dev/environment''"

text \<open>The catalog \<^verbatim>\<open>kinds\<close> of \<^verbatim>\<open>listOrphaned\<close>.\<close>

definition kinds :: "string list" where
  "kinds =
     [''ConfigMap'', ''Endpoints'', ''Namespace'', ''PersistentVolumeClaim'',
      ''PersistentVolume'', ''Pod'', ''ReplicationController'', ''Secret'',
      ''ServiceAccount'', ''Service'',
      ''DaemonSet'', ''Deployment'', ''ReplicaSet'', ''StatefulSet'',
      ''Job'', ''CronJob'',
      ''Ingress'',
      ''ClusterRole'', ''ClusterRoleBinding'', ''Role'', ''RoleBinding'']"

text \<open>
  The two channels of \<^verbatim>\<open>listOrphaned\<close> are unbuffered: a send waits until the collecting
  loop receives it. A message is tagged with its channel: \<open>R\<close> for \<^verbatim>\<open>r\<close>
  (\<^verbatim>\<open>chan manifest.List\<close>, the nil list is \<open>[]\<close>) and \<open>E\<close> for \<^verbatim>\<open>e\<close> (\<^verbatim>\<open>chan error\<close>).
\<close>

datatype msg = R "Manifest list" | E error

text \<open>The arguments of one \<^verbatim>\<open>GetByLabels\<close> call.\<close>

record Query =
  q_namespace :: string
  q_kind :: string
  q_labels :: "string \<rightharpoonup> string"

text \<open>
  \<^verbatim>\<open>func (k *Kubernetes) parallelGetByLabels(kind, envName string, r, e)\<close>: the body of
  one goroutine. The result is the query the goroutine puts to the client and the sends
  it performs, in program order: after \<^verbatim>\<open>e <- errors.Wrapf(...)\<close> there is no return, so
  \<^verbatim>\<open>r <- list\<close> follows in either case. \<open>query_result\<close> is the call
  \<^verbatim>\<open>k.ctl.GetByLabels("", kind, map[string]string{LabelEnvironment: envName})\<close> and
  \<open>getting_orphans\<close> the formatted message of \<^verbatim>\<open>errors.Wrapf\<close>.
\<close>

definition getting_orphans :: "string \<Rightarrow> string" where
  "getting_orphans kind = ''getting orphans of kind '' @ [CHR 0x27] @ kind @ [CHR 0x27] @ '':''"

definition query_result :: "Kubernetes \<Rightarrow> Query \<Rightarrow> Manifest list \<times> error option" where
  "query_result k q = ctl_GetByLabels (ctl k) (q_namespace q) (q_kind q) (q_labels q)"

definition parallelGetByLabels :: "Kubernetes \<Rightarrow> string \<Rightarrow> string \<Rightarrow> Query \<times> msg list" where
  "parallelGetByLabels k kind envName =
     (let q = \<lparr> q_namespace = [], q_kind = kind, q_labels = [LabelEnvironment \<mapsto> envName] \<rparr>
      in case query_result k q of
           (list, err) \<Rightarrow>
             (q,
              (case err of
                 Some err' \<Rightarrow> [E (Wrap err' (getting_orphans kind))]
               | None \<Rightarrow> []) @ [R list]))"

text \<open>
  The loop \<^verbatim>\<open>for _, kind := range kinds { go k.parallelGetByLabels(...) }\<close> starts one
  goroutine for each kind, whatever the others do.
\<close>

definition spawn :: "Kubernetes \<Rightarrow> (Query \<times> msg list) list" where
  "spawn k = map (\<lambda>kind. parallelGetByLabels k kind (NameLabel (Metadata (Env k)))) kinds"

definition queries_issued :: "Kubernetes \<Rightarrow> Query list" where
  "queries_issued k = map fst (spawn k)"

text \<open>
  The query of the goroutine started for a kind, and all manifests that the queries of
  one call return, in the order of the catalog.
\<close>

definition query_for :: "Kubernetes \<Rightarrow> string \<Rightarrow> Query" where
  "query_for k kind = fst (parallelGetByLabels k kind (NameLabel (Metadata (Env k))))"

definition returned_lists :: "Kubernetes \<Rightarrow> Manifest list" where
  "returned_lists k = concat (map (\<lambda>q. fst (query_result k q)) (queries_issued k))"

text \<open>
  One \<^verbatim>\<open>select\<close> of the collecting loop. The state of the goroutines is the list of
  the sends each still has to perform; the head of a non-empty entry is a sender
  waiting on its channel. Which of the waiting senders the \<^verbatim>\<open>select\<close> takes is decided by
  the Go scheduler: the number \<open>c\<close> is that choice, it skips \<open>c\<close> waiting senders (and
  takes the last one when fewer are waiting), so every waiting sender can be chosen.
  With no sender left the \<^verbatim>\<open>select\<close> waits forever (\<open>None\<close>).
\<close>

fun recv :: "nat \<Rightarrow> msg list list \<Rightarrow> (msg \<times> msg list list) option" where
  "recv c [] = None"
| "recv c ([] # ws) =
     (case recv c ws of None \<Rightarrow> None | Some (m, ws') \<Rightarrow> Some (m, [] # ws'))"
| "recv 0 ((m # q) # ws) = Some (m, q # ws)"
| "recv (Suc c) ((m # q) # ws) =
     (case recv c ws of
        None \<Rightarrow> Some (m, q # ws)
      | Some (m', ws') \<Rightarrow> Some (m', (m # q) # ws'))"

text \<open>
  \<^verbatim>\<open>known := make(map[manifest.Identifier]bool)\<close>, filled from the desired state;
  \<^verbatim>\<open>known[id]\<close> is false for an identifier that is not a key.
\<close>

definition make_known :: "Manifest list \<Rightarrow> (Identifier \<rightharpoonup> bool)" where
  "make_known state = foldl (\<lambda>known m. known(Identifier m \<mapsto> True)) Map.empty state"

definition lookup :: "(Identifier \<rightharpoonup> bool) \<Rightarrow> Identifier \<Rightarrow> bool" where
  "lookup known i = (case known i of Some b \<Rightarrow> b | None \<Rightarrow> False)"

text \<open>
  The inner loop \<^verbatim>\<open>for _, m := range list\<close>: a manifest whose identifier is known is
  skipped, any other is appended to \<^verbatim>\<open>orphaned\<close>.
\<close>

fun collect :: "(Identifier \<rightharpoonup> bool) \<Rightarrow> Manifest list \<Rightarrow> Manifest list \<Rightarrow> Manifest list" where
  "collect known orphaned [] = orphaned"
| "collect known orphaned (m # list) =
     (if lookup known (Identifier m) then collect known orphaned list
      else collect known (orphaned @ [m]) list)"

text \<open>
  The collecting loop \<^verbatim>\<open>for i := 0; i < len(kinds); i++ { select { ... } }\<close>. The
  argument \<open>n\<close> counts the iterations that remain, \<open>sched\<close> lists the scheduler's choices
  (0 once the list is used up). The result holds \<^verbatim>\<open>orphaned\<close>, \<^verbatim>\<open>lastErr\<close> and the
  sends that no iteration has received when the loop ends.
\<close>

fun select_loop ::
  "(Identifier \<rightharpoonup> bool) \<Rightarrow> nat list \<Rightarrow> nat \<Rightarrow> msg list list \<Rightarrow> Manifest list \<Rightarrow> error option \<Rightarrow>
   (Manifest list \<times> error option \<times> msg list list) outcome" where
  "select_loop known sched 0 ws orphaned lastErr = Returns (orphaned, lastErr, ws)"
| "select_loop known sched (Suc n) ws orphaned lastErr =
     (case recv (case sched of [] \<Rightarrow> 0 | c # _ \<Rightarrow> c) ws of
        None \<Rightarrow> Blocks
      | Some (R list, ws') \<Rightarrow>
          select_loop known (tl sched) n ws' (collect known orphaned list) lastErr
      | Some (E err, ws') \<Rightarrow>
          select_loop known (tl sched) n ws' orphaned (Some err))"

text \<open>
  \<^verbatim>\<open>func (k *Kubernetes) listOrphaned(state manifest.List) (manifest.List, error)\<close>.
  The diagnostic \<^verbatim>\<open>fmt.Println\<close> calls of the function are not modelled. After the
  loop the function runs \<^verbatim>\<open>close(r)\<close> and \<^verbatim>\<open>close(e)\<close>. A goroutine whose send no
  iteration has received sends on a closed channel: it panics with
  \<^verbatim>\<open>send on closed channel\<close>, and the process ends, whether or not the collecting
  goroutine gets as far as handing \<^verbatim>\<open>nil, lastErr\<close> to its caller before that. With no
  send left over the function returns \<^verbatim>\<open>nil, lastErr\<close> or \<^verbatim>\<open>orphaned, nil\<close>.
  \<open>abandoned_sends\<close> gives the sends that are left over.
\<close>

definition listOrphaned ::
  "Kubernetes \<Rightarrow> nat list \<Rightarrow> Manifest list \<Rightarrow> (Manifest list option \<times> error option) outcome" where
  "listOrphaned k sched state =
     (let known = make_known state
      in case select_loop known sched (length kinds) (map snd (spawn k)) [] None of
           Blocks \<Rightarrow> Blocks
         | Panics \<Rightarrow> Panics
         | Returns (orphaned, lastErr, ws) \<Rightarrow>
             if concat ws \<noteq> [] then Panics
             else
               (case lastErr of
                  Some err \<Rightarrow> Returns (None, Some err)
                | None \<Rightarrow> Returns (Some orphaned, None)))"

definition abandoned_sends :: "Kubernetes \<Rightarrow> nat list \<Rightarrow> Manifest list \<Rightarrow> msg list" where
  "abandoned_sends k sched state =
     (case select_loop (make_known state) sched (length kinds) (map snd (spawn k)) [] None of
        Returns (orphaned, lastErr, ws) \<Rightarrow> concat ws
      | _ \<Rightarrow> [])"

text \<open>
  The messages the collecting loop receives, in the order of their arrival, under the
  same choices of the scheduler.
\<close>

fun arrivals :: "nat list \<Rightarrow> nat \<Rightarrow> msg list list \<Rightarrow> msg list" where
  "arrivals sched 0 ws = []"
| "arrivals sched (Suc n) ws =
     (case recv (case sched of [] \<Rightarrow> 0 | c # _ \<Rightarrow> c) ws of
        None \<Rightarrow> []
      | Some (m, ws') \<Rightarrow> m # arrivals (tl sched) n ws')"

definition observed :: "Kubernetes \<Rightarrow> nat list \<Rightarrow> msg list" where
  "observed k sched = arrivals sched (length kinds) (map snd (spawn k))"

fun errors_of :: "msg list \<Rightarrow> error list" where
  "errors_of [] = []"
| "errors_of (E err # ms) = err # errors_of ms"
| "errors_of (R list # ms) = errors_of ms"

fun lists_of :: "msg list \<Rightarrow> Manifest list" where
  "lists_of [] = []"
| "lists_of (R list # ms) = list @ lists_of ms"
| "lists_of (E err # ms) = lists_of ms"

text \<open>
  Two properties of the sends a goroutine still has to perform, for the proofs about the
  collecting loop: the send on \<^verbatim>\<open>r\<close> is the last one, and the goroutine waits on \<^verbatim>\<open>r\<close>.
\<close>

fun r_is_last :: "msg list \<Rightarrow> bool" where
  "r_is_last [] = True"
| "r_is_last (R list # q) = (q = [])"
| "r_is_last (E err # q) = r_is_last q"

fun waits_on_r :: "msg list \<Rightarrow> bool" where
  "waits_on_r (R list # q) = True"
| "waits_on_r q = False"

section \<open>Apply\<close>

text \<open>
  What \<^verbatim>\<open>Apply\<close> does to the outside: a confirmation prompt (\<^verbatim>\<open>cli.Confirm\<close> with its
  message and the expected answer), a call of the client's mutating \<^verbatim>\<open>Apply\<close>, a line
  printed.
\<close>

datatype effect =
  Confirmation string string
| ClientApply "Manifest list" ApplyOpts
| Println string
| PrintlnIdentifier Identifier

text \<open>The message of the prompt (the colours of \<^verbatim>\<open>alert\<close> are left out).\<close>

definition apply_message :: "Kubernetes \<Rightarrow> Info \<Rightarrow> string" where
  "apply_message k i =
     ''Applying to namespace '' @ [CHR 0x27] @ EnvNamespace (Spec (Env k)) @ [CHR 0x27] @
     '' of cluster '' @ [CHR 0x27] @ ClusterName i @ [CHR 0x27] @
     '' at '' @ [CHR 0x27] @ ClusterServer i @ [CHR 0x27] @
     '' using context '' @ [CHR 0x27] @ ContextName i @ [CHR 0x27] @ ''.''"

text \<open>
  \<^verbatim>\<open>func (k *Kubernetes) Apply(state manifest.List, opts ApplyOpts) error\<close>. The
  parameter \<open>Confirm\<close> stands for \<^verbatim>\<open>cli.Confirm\<close> (the answer of the user). The
  confirm-and-apply block stands under \<^verbatim>\<open>if false\<close>, as in the source.
\<close>

definition Apply ::
  "(string \<Rightarrow> string \<Rightarrow> error option) \<Rightarrow> Kubernetes \<Rightarrow> nat list \<Rightarrow> Manifest list \<Rightarrow> ApplyOpts \<Rightarrow>
   (error option \<times> effect list) outcome" where
  "Apply Confirm k sched state opts =
     (if False then
        (case ctl_Info (ctl k) of
           (_, Some err) \<Rightarrow> Returns (Some err, [])
         | (None, None) \<Rightarrow> Panics
         | (Some i, None) \<Rightarrow>
             (if \<not> AutoApprove opts then
                (case Confirm (apply_message k i) ''yes'' of
                   Some err \<Rightarrow> Returns (Some err, [Confirmation (apply_message k i) ''yes''])
                 | None \<Rightarrow>
                     Returns (ctl_Apply (ctl k) state opts,
                       [Confirmation (apply_message k i) ''yes'', ClientApply state opts]))
              else Returns (ctl_Apply (ctl k) state opts, [ClientApply state opts])))
      else
        (case listOrphaned k sched state of
           Blocks \<Rightarrow> Blocks
         | Panics \<Rightarrow> Panics
         | Returns (_, Some err) \<Rightarrow> Returns (Some err, [])
         | Returns (None, None) \<Rightarrow> Returns (None, [Println ''orphan''])
         | Returns (Some list, None) \<Rightarrow>
             Returns (None, Println ''orphan'' # map (\<lambda>m. PrintlnIdentifier (Identifier m)) list)))"

text \<open>The effects that ask the user or change the cluster.\<close>

fun mutates :: "effect \<Rightarrow> bool" where
  "mutates (ClientApply state opts) = True"
| "mutates (Confirmation message expected) = True"
| "mutates other = False"

section \<open>Example inputs\<close>

text \<open>
  Concrete inputs for the evaluations below: a cluster at a given server version whose
  answer to a label query depends on the kind only, an environment with namespace
  \<open>prod\<close>, and the engine \<^verbatim>\<open>New\<close> builds for it at server version 1.13.1.
\<close>

definition deployment :: "string \<Rightarrow> string \<Rightarrow> Manifest" where
  "deployment name body =
     \<lparr> manifest_kind = ''Deployment'',
       manifest_metadata = \<lparr> meta_name = name, meta_namespace = ''prod'',
         meta_labels = [(LabelEnvironment, ''default'')], meta_resourceVersion = ''1'' \<rparr>,
       manifest_body = body \<rparr>"

definition release :: "nat \<Rightarrow> nat \<Rightarrow> nat \<Rightarrow> Version" where
  "release a b c = \<lparr> Major = a, Minor = b, Patch = c, Prerelease = [], BuildMetadata = [] \<rparr>"

definition example_info :: "Version \<Rightarrow> Info" where
  "example_info v =
     \<lparr> ServerVersion = v, ClusterName = ''dev'', ClusterServer = ''https://127.0.0.1:6443'',
       ContextName = ''dev-admin'' \<rparr>"

definition example_config :: "string \<Rightarrow> Config" where
  "example_config strategy =
     \<lparr> Metadata = \<lparr> NameLabel = ''default'' \<rparr>,
       Spec = \<lparr> APIServer = ''https://127.0.0.1:6443'', EnvNamespace = ''prod'',
                DiffStrategy = strategy \<rparr> \<rparr>"

definition example_client ::
  "Version \<Rightarrow> (string \<Rightarrow> Manifest list \<times> error option) \<Rightarrow> Client" where
  "example_client v cluster =
     \<lparr> ctl_Info = (Some (example_info v), None),
       ctl_GetByLabels = (\<lambda>namespace kind labels. cluster kind),
       ctl_DiffServerSide = (\<lambda>state. (None, None)),
       ctl_Apply = (\<lambda>state opts. None) \<rparr>"

definition example_SubsetDiffer :: "Client \<Rightarrow> Differ" where
  "example_SubsetDiffer c = (\<lambda>state. (Some [], None))"

definition example_k :: "(string \<Rightarrow> Manifest list \<times> error option) \<Rightarrow> Kubernetes" where
  "example_k cluster =
     \<lparr> Env = example_config ''native'',
       ctl = example_client (release 1 13 1) cluster,
       info = example_info (release 1 13 1),
       differs =
         [''native'' \<mapsto> ctl_DiffServerSide (example_client (release 1 13 1) cluster),
          ''subset'' \<mapsto> example_SubsetDiffer (example_client (release 1 13 1) cluster)] \<rparr>"

definition healthy :: "string \<Rightarrow> Manifest list \<times> error option" where
  "healthy kind =
     (if kind = ''Deployment''
      then ([deployment ''api'' ''v1'', deployment ''worker'' ''v1''], None)
      else ([], None))"

definition secrets_forbidden :: "string \<Rightarrow> Manifest list \<times> error option" where
  "secrets_forbidden kind =
     (if kind = ''Secret'' then ([], Some (Err ''forbidden'')) else healthy kind)"

definition doubled :: "string \<Rightarrow> Manifest list \<times> error option" where
  "doubled kind =
     (if kind = ''ReplicaSet'' then ([deployment ''worker'' ''v2''], None) else healthy kind)"

definition example_Diffstat :: "string \<Rightarrow> string option \<times> error option" where
  "example_Diffstat d = (Some ''0 files changed'', None)"

definition confirm_yes :: "string \<Rightarrow> string \<Rightarrow> error option" where
  "confirm_yes message expected = None"

section \<open>The collecting loop\<close>

lemma lookup_foldl:
  "lookup (foldl (\<lambda>known m. known(Identifier m \<mapsto> True)) kn state) i =
     (lookup kn i \<or> i \<in> Identifier ` set state)"
  by (induction state arbitrary: kn) (auto simp: lookup_def)

lemma lookup_make_known: "lookup (make_known state) i = (i \<in> Identifier ` set state)"
  by (simp add: make_known_def lookup_foldl) (simp add: lookup_def)

lemma collect_filter:
  "collect known orphaned list = orphaned @ filter (\<lambda>m. \<not> lookup known (Identifier m)) list"
  by (induction list arbitrary: orphaned) auto

lemma recv_None: "(recv c ws = None) = (concat ws = [])"
  by (induction c ws rule: recv.induct) (auto split: option.splits)

lemma recv_mset:
  "recv c ws = Some (m, ws') \<Longrightarrow> mset (concat ws) = add_mset m (mset (concat ws'))"
  by (induction c ws arbitrary: m ws' rule: recv.induct) (auto split: option.splits)

lemma recv_length:
  "recv c ws = Some (m, ws') \<Longrightarrow> length (concat ws) = Suc (length (concat ws'))"
  by (drule recv_mset, drule arg_cong [where f = size]) simp

lemma lists_of_append: "lists_of (xs @ ys) = lists_of xs @ lists_of ys"
  by (induction xs rule: lists_of.induct) auto

lemma select_loop_returns:
  "n \<le> length (concat ws) \<Longrightarrow> \<exists>r. select_loop known sched n ws orphaned lastErr = Returns r"
proof (induction n arbitrary: sched ws orphaned lastErr)
  case 0
  then show ?case by simp
next
  case (Suc n)
  let ?c = "case sched of [] \<Rightarrow> 0 | c # _ \<Rightarrow> c"
  have "concat ws \<noteq> []"
  proof
    assume "concat ws = []"
    then have "length (concat ws) = 0" by (simp only: list.size)
    with Suc.prems show False by simp
  qed
  then obtain m ws' where r: "recv ?c ws = Some (m, ws')"
    using recv_None [of ?c ws] by (cases "recv ?c ws") auto
  from recv_length [OF r] Suc.prems have "n \<le> length (concat ws')" by simp
  from Suc.IH [OF this] r show ?case by (cases m) auto
qed

lemma select_loop_arrivals:
  "select_loop known sched n ws orphaned lastErr = Returns (orphaned', lastErr', ws') \<Longrightarrow>
   length (arrivals sched n ws) = n \<and>
   orphaned' = orphaned @
     filter (\<lambda>m. \<not> lookup known (Identifier m)) (lists_of (arrivals sched n ws)) \<and>
   lastErr' = (if errors_of (arrivals sched n ws) = [] then lastErr
               else Some (last (errors_of (arrivals sched n ws)))) \<and>
   mset (concat ws) = mset (arrivals sched n ws) + mset (concat ws')"
proof (induction n arbitrary: sched ws orphaned lastErr)
  case 0
  then show ?case by simp
next
  case (Suc n)
  let ?c = "case sched of [] \<Rightarrow> 0 | c # _ \<Rightarrow> c"
  from Suc.prems obtain m ws1 where r: "recv ?c ws = Some (m, ws1)"
    by (cases "recv ?c ws") auto
  note ms = recv_mset [OF r]
  show ?case
  proof (cases m)
    case (R list)
    with Suc.prems r have
      "select_loop known (tl sched) n ws1 (collect known orphaned list) lastErr =
         Returns (orphaned', lastErr', ws')"
      by simp
    from Suc.IH [OF this] r R ms show ?thesis
      by (simp add: collect_filter)
  next
    case (E err)
    with Suc.prems r have
      "select_loop known (tl sched) n ws1 orphaned (Some err) = Returns (orphaned', lastErr', ws')"
      by simp
    from Suc.IH [OF this] r E ms show ?thesis
      by simp
  qed
qed

lemma mset_lists_of: "mset (lists_of ms) = (\<Sum>m \<in># mset ms. mset (lists_of [m]))"
  by (induction ms rule: lists_of.induct) simp_all

lemma set_errors_of: "set (errors_of ms) = {err. E err \<in> set ms}"
  by (induction ms rule: errors_of.induct) auto

lemma fst_parallelGetByLabels:
  "fst (parallelGetByLabels k kind envName) =
     \<lparr> q_namespace = [], q_kind = kind, q_labels = [LabelEnvironment \<mapsto> envName] \<rparr>"
  by (simp add: parallelGetByLabels_def Let_def split: prod.splits)

lemma snd_parallelGetByLabels:
  "snd (parallelGetByLabels k kind envName) =
     (case snd (query_result k (fst (parallelGetByLabels k kind envName))) of
        Some err \<Rightarrow>
          [E (Wrap err (getting_orphans (q_kind (fst (parallelGetByLabels k kind envName)))))]
      | None \<Rightarrow> []) @
     [R (fst (query_result k (fst (parallelGetByLabels k kind envName))))]"
  by (simp add: parallelGetByLabels_def Let_def split: prod.splits cong: option.case_cong)

lemma spawn_sends:
  "map snd (spawn k) =
     map (\<lambda>q. (case snd (query_result k q) of
                  Some err \<Rightarrow> [E (Wrap err (getting_orphans (q_kind q)))]
                | None \<Rightarrow> []) @ [R (fst (query_result k q))]) (queries_issued k)"
  by (simp add: queries_issued_def spawn_def snd_parallelGetByLabels o_def cong: option.case_cong)

lemma queries_issued_eq: "queries_issued k = map (query_for k) kinds"
  by (simp add: queries_issued_def spawn_def query_for_def)

lemma length_queries_issued: "length (queries_issued k) = length kinds"
  by (simp add: queries_issued_def spawn_def)

lemma lists_of_sends: "lists_of (concat (map snd (spawn k))) = returned_lists k"
proof -
  have "lists_of (concat (map (\<lambda>q. (case snd (query_result k q) of
                  Some err \<Rightarrow> [E (Wrap err (getting_orphans (q_kind q)))]
                | None \<Rightarrow> []) @ [R (fst (query_result k q))]) qs)) =
        concat (map (\<lambda>q. fst (query_result k q)) qs)" for qs
    by (induction qs) (auto simp: lists_of_append split: option.splits)
  then show ?thesis by (simp add: spawn_sends returned_lists_def)
qed

lemma length_sends: "length kinds \<le> length (concat (map snd (spawn k)))"
proof -
  have "length qs \<le> length (concat (map (\<lambda>q. (case snd (query_result k q) of
                  Some err \<Rightarrow> [E (Wrap err (getting_orphans (q_kind q)))]
                | None \<Rightarrow> []) @ [R (fst (query_result k q))]) qs))" for qs
    by (induction qs) (auto split: option.splits)
  from this [of "queries_issued k"] show ?thesis
    by (simp add: spawn_sends length_queries_issued)
qed

lemma sends_no_failure:
  assumes "\<forall>q \<in> set (queries_issued k). snd (query_result k q) = None"
  shows "concat (map snd (spawn k)) = map (\<lambda>q. R (fst (query_result k q))) (queries_issued k)"
proof -
  have "\<forall>q \<in> set qs. snd (query_result k q) = None \<Longrightarrow>
        concat (map (\<lambda>q. (case snd (query_result k q) of
                  Some err \<Rightarrow> [E (Wrap err (getting_orphans (q_kind q)))]
                | None \<Rightarrow> []) @ [R (fst (query_result k q))]) qs) =
        map (\<lambda>q. R (fst (query_result k q))) qs" for qs
    by (induction qs) auto
  from this [OF assms] show ?thesis by (simp add: spawn_sends)
qed

lemma sends_errors:
  "E err \<in> set (concat (map snd (spawn k))) \<Longrightarrow>
   \<exists>q \<in> set (queries_issued k). \<exists>cause.
      snd (query_result k q) = Some cause \<and> err = Wrap cause (getting_orphans (q_kind q))"
  by (auto simp: spawn_sends split: option.splits) metis+

text \<open>
  The loop of \<^verbatim>\<open>listOrphaned\<close> on the goroutines of the call: it returns after one
  message for each kind, whatever the scheduler chooses, and its results are determined
  by the messages that arrived.
\<close>

lemma listOrphaned_loop:
  "\<exists>orphaned lastErr ws.
     select_loop (make_known state) sched (length kinds) (map snd (spawn k)) [] None =
       Returns (orphaned, lastErr, ws) \<and>
     length (observed k sched) = length kinds \<and>
     orphaned = filter (\<lambda>m. Identifier m \<notin> Identifier ` set state) (lists_of (observed k sched)) \<and>
     lastErr = (if errors_of (observed k sched) = [] then None
                else Some (last (errors_of (observed k sched)))) \<and>
     mset (concat (map snd (spawn k))) = mset (observed k sched) + mset (concat ws)"
proof -
  from select_loop_returns [OF length_sends] obtain orphaned lastErr ws where
    r: "select_loop (make_known state) sched (length kinds) (map snd (spawn k)) [] None =
          Returns (orphaned, lastErr, ws)"
    by (metis prod_cases3)
  from select_loop_arrivals [OF r] r show ?thesis
    by (simp add: observed_def lookup_make_known)
qed

lemma recv_R_step:
  "recv c ws = Some (R list, ws') \<Longrightarrow> list_all r_is_last ws \<Longrightarrow>
   list_all r_is_last ws' \<and>
   Suc (length (filter waits_on_r ws')) = length (filter waits_on_r ws)"
proof (induction c ws arbitrary: ws' rule: recv.induct)
  case (1 c)
  then show ?case by simp
next
  case (2 c ws)
  then show ?case by (auto split: option.splits)
next
  case (3 m q ws)
  then show ?case by auto
next
  case (4 c m q ws)
  then show ?case by (cases m) (auto split: option.splits)
qed

lemma arrivals_error:
  "list_all r_is_last ws \<Longrightarrow> length (filter waits_on_r ws) < n \<Longrightarrow>
   length (arrivals sched n ws) = n \<Longrightarrow> errors_of (arrivals sched n ws) \<noteq> []"
proof (induction n arbitrary: sched ws)
  case 0
  then show ?case by simp
next
  case (Suc n)
  let ?c = "case sched of [] \<Rightarrow> 0 | c # _ \<Rightarrow> c"
  from Suc.prems(3) obtain m ws' where r: "recv ?c ws = Some (m, ws')"
    by (cases "recv ?c ws") auto
  show ?case
  proof (cases m)
    case (R list)
    from recv_R_step [OF r [unfolded R] Suc.prems(1)] Suc.prems(2)
    have "list_all r_is_last ws'" and "length (filter waits_on_r ws') < n"
      by auto
    moreover from Suc.prems(3) r have "length (arrivals (tl sched) n ws') = n"
      by simp
    ultimately have "errors_of (arrivals (tl sched) n ws') \<noteq> []"
      by (rule Suc.IH)
    with r R show ?thesis by simp
  next
    case (E err)
    with r show ?thesis by simp
  qed
qed

lemma sends_r_is_last: "list_all r_is_last (map snd (spawn k))"
  by (simp add: spawn_sends list_all_iff split: option.splits)

lemma sends_waiting_on_r:
  "length (filter waits_on_r (map snd (spawn k))) =
   length (filter (\<lambda>q. snd (query_result k q) = None) (queries_issued k))"
proof -
  have "length (filter waits_on_r (map (\<lambda>q. (case snd (query_result k q) of
                  Some err \<Rightarrow> [E (Wrap err (getting_orphans (q_kind q)))]
                | None \<Rightarrow> []) @ [R (fst (query_result k q))]) qs)) =
        length (filter (\<lambda>q. snd (query_result k q) = None) qs)" for qs
    by (induction qs) (auto split: option.splits)
  then show ?thesis by (simp add: spawn_sends)
qed

lemma observed_error:
  assumes "\<exists>q \<in> set (queries_issued k). snd (query_result k q) \<noteq> None"
  shows "errors_of (observed k sched) \<noteq> []"
proof -
  from assms obtain q where "q \<in> set (queries_issued k)" "\<not> snd (query_result k q) = None"
    by blast
  then have "length (filter (\<lambda>q. snd (query_result k q) = None) (queries_issued k)) <
             length (queries_issued k)"
    by (rule length_filter_less)
  then have "length (filter waits_on_r (map snd (spawn k))) < length kinds"
    unfolding sends_waiting_on_r length_queries_issued .
  moreover from listOrphaned_loop [of "[]" sched k]
  have "length (arrivals sched (length kinds) (map snd (spawn k))) = length kinds"
    by (auto simp: observed_def)
  ultimately show ?thesis
    unfolding observed_def by (rule arrivals_error [OF sends_r_is_last])
qed

lemma observed_subset: "set (observed k sched) \<subseteq> set (concat (map snd (spawn k)))"
proof -
  from listOrphaned_loop [of "[]" sched k] obtain ws where
    "mset (concat (map snd (spawn k))) = mset (observed k sched) + mset (concat ws)"
    by blast
  then have "set_mset (mset (observed k sched)) \<subseteq> set_mset (mset (concat (map snd (spawn k))))"
    by simp
  then show ?thesis by (simp only: set_mset_mset)
qed

text \<open>
  When the channels are closed, as many sends are left over as queries have failed,
  under every choice of the scheduler.
\<close>

lemma length_sends_failed:
  "length (concat (map snd (spawn k))) =
   length kinds + length (filter (\<lambda>q. snd (query_result k q) \<noteq> None) (queries_issued k))"
proof -
  have "length (concat (map (\<lambda>q. (case snd (query_result k q) of
                  Some err \<Rightarrow> [E (Wrap err (getting_orphans (q_kind q)))]
                | None \<Rightarrow> []) @ [R (fst (query_result k q))]) qs)) =
        length qs + length (filter (\<lambda>q. snd (query_result k q) \<noteq> None) qs)" for qs
    by (induction qs) (auto split: option.splits)
  from this [of "queries_issued k"] show ?thesis
    by (simp add: spawn_sends length_queries_issued)
qed

lemma abandoned_sends_count:
  "length (abandoned_sends k sched state) =
   length (filter (\<lambda>q. snd (query_result k q) \<noteq> None) (queries_issued k))"
proof -
  from listOrphaned_loop [of state sched k] obtain orphaned lastErr ws where
    loop: "select_loop (make_known state) sched (length kinds) (map snd (spawn k)) [] None =
             Returns (orphaned, lastErr, ws)"
    and len: "length (observed k sched) = length kinds"
    and ms: "mset (concat (map snd (spawn k))) = mset (observed k sched) + mset (concat ws)"
    by blast
  from arg_cong [OF ms, of size]
  have "length (concat (map snd (spawn k))) = length (observed k sched) + length (concat ws)"
    by (simp only: size_union size_mset)
  with len have "length (concat ws) =
      length (filter (\<lambda>q. snd (query_result k q) \<noteq> None) (queries_issued k))"
    by (simp add: length_sends_failed)
  with loop show ?thesis
    by (simp add: abandoned_sends_def)
qed

text \<open>
  With a failing query the loop ends with the error it received last, one of the
  failures wrapped with the message naming its kind, and with a send left over; the
  call ends in the panic of that sender.
\<close>

lemma select_loop_some_failure:
  assumes "\<exists>q \<in> set (queries_issued k). snd (query_result k q) \<noteq> None"
  shows "\<exists>orphaned ws.
           select_loop (make_known state) sched (length kinds) (map snd (spawn k)) [] None =
             Returns (orphaned, Some (last (errors_of (observed k sched))), ws) \<and>
           errors_of (observed k sched) \<noteq> [] \<and> concat ws \<noteq> [] \<and>
           (\<exists>q \<in> set (queries_issued k). \<exists>cause.
              snd (query_result k q) = Some cause \<and>
              last (errors_of (observed k sched)) = Wrap cause (getting_orphans (q_kind q)))"
proof -
  have ne: "errors_of (observed k sched) \<noteq> []"
    using assms by (rule observed_error)
  then have "last (errors_of (observed k sched)) \<in> set (errors_of (observed k sched))"
    by (rule last_in_set)
  then have "E (last (errors_of (observed k sched))) \<in> set (observed k sched)"
    by (simp add: set_errors_of)
  with observed_subset have
    "E (last (errors_of (observed k sched))) \<in> set (concat (map snd (spawn k)))"
    by blast
  note wrapped = sends_errors [OF this]
  from assms obtain q where "q \<in> set (queries_issued k)" "snd (query_result k q) \<noteq> None"
    by blast
  then have "filter (\<lambda>q. snd (query_result k q) \<noteq> None) (queries_issued k) \<noteq> []"
    by (auto simp: filter_empty_conv)
  then have "length (abandoned_sends k sched state) \<noteq> 0"
    by (simp only: abandoned_sends_count length_0_conv not_False_eq_True)
  then have left: "abandoned_sends k sched state \<noteq> []"
    by simp
  from listOrphaned_loop [of state sched k] obtain orphaned lastErr ws where
    loop: "select_loop (make_known state) sched (length kinds) (map snd (spawn k)) [] None =
             Returns (orphaned, lastErr, ws)"
    and err: "lastErr = (if errors_of (observed k sched) = [] then None
                else Some (last (errors_of (observed k sched))))"
    by blast
  from left loop have "concat ws \<noteq> []"
    by (simp add: abandoned_sends_def)
  with loop err ne wrapped show ?thesis
    by simp
qed

lemma listOrphaned_some_failure:
  assumes "\<exists>q \<in> set (queries_issued k). snd (query_result k q) \<noteq> None"
  shows "listOrphaned k sched state = Panics"
proof -
  from select_loop_some_failure [OF assms, of state sched] obtain orphaned ws where
    "select_loop (make_known state) sched (length kinds) (map snd (spawn k)) [] None =
       Returns (orphaned, Some (last (errors_of (observed k sched))), ws)"
    and "concat ws \<noteq> []"
    by blast
  then show ?thesis
    by (simp add: listOrphaned_def)
qed

lemma listOrphaned_no_failure:
  assumes "\<forall>q \<in> set (queries_issued k). snd (query_result k q) = None"
  shows "listOrphaned k sched state =
           Returns (Some (filter (\<lambda>m. Identifier m \<notin> Identifier ` set state)
                            (lists_of (observed k sched))), None) \<and>
         mset (lists_of (observed k sched)) = mset (returned_lists k)"
proof -
  let ?sends = "concat (map snd (spawn k))"
  from listOrphaned_loop [of state sched k] obtain orphaned lastErr ws where
    loop: "select_loop (make_known state) sched (length kinds) (map snd (spawn k)) [] None =
             Returns (orphaned, lastErr, ws)"
    and len: "length (observed k sched) = length kinds"
    and orph: "orphaned = filter (\<lambda>m. Identifier m \<notin> Identifier ` set state)
                 (lists_of (observed k sched))"
    and err: "lastErr = (if errors_of (observed k sched) = [] then None
                else Some (last (errors_of (observed k sched))))"
    and ms: "mset ?sends = mset (observed k sched) + mset (concat ws)"
    by blast
  have sends: "?sends = map (\<lambda>q. R (fst (query_result k q))) (queries_issued k)"
    using assms by (rule sends_no_failure)
  have "size (mset ?sends) = length kinds"
    by (simp add: sends length_queries_issued)
  moreover from arg_cong [OF ms, of size]
  have "size (mset ?sends) = length (observed k sched) + length (concat ws)"
    by (simp only: size_union size_mset)
  ultimately have none: "concat ws = []"
    using len by simp
  with ms have all: "mset (observed k sched) = mset ?sends"
    by (simp only: mset.simps add_0_right)
  have "set (errors_of (observed k sched)) = {}"
    using observed_subset [of k sched] by (auto simp: set_errors_of sends)
  then have "errors_of (observed k sched) = []"
    by simp
  with loop err orph none have res: "listOrphaned k sched state =
      Returns (Some (filter (\<lambda>m. Identifier m \<notin> Identifier ` set state)
                       (lists_of (observed k sched))), None)"
    by (simp add: listOrphaned_def)
  have "mset (lists_of (observed k sched)) =
          (\<Sum>m \<in># mset (observed k sched). mset (lists_of [m]))"
    by (rule mset_lists_of)
  also have "\<dots> = (\<Sum>m \<in># mset ?sends. mset (lists_of [m]))"
    by (simp only: all)
  also have "\<dots> = mset (lists_of ?sends)"
    by (rule mset_lists_of [symmetric])
  finally have "mset (lists_of (observed k sched)) = mset (returned_lists k)"
    by (simp only: lists_of_sends)
  with res show ?thesis by (rule conjI)
qed

lemma pair_in_concat:
  "k1 \<in> set ks \<Longrightarrow> k2 \<in> set ks \<Longrightarrow> k1 \<noteq> k2 \<Longrightarrow> a \<in> set (f k1) \<Longrightarrow> b \<in> set (f k2) \<Longrightarrow>
   {#a, b#} \<subseteq># mset (concat (map f ks))"
proof (induction ks)
  case Nil
  then show ?case by simp
next
  case (Cons x ks)
  have single: "y \<in> set ks \<Longrightarrow> c \<in> set (f y) \<Longrightarrow> {#c#} \<subseteq># mset (concat (map f ks))" for y c
    by (subst mset_subset_eq_single) auto
  show ?case
  proof (cases "x = k1")
    case True
    with Cons.prems have "{#a#} \<subseteq># mset (f x)" and "{#b#} \<subseteq># mset (concat (map f ks))"
      by (auto intro: single)
    then have "{#a#} + {#b#} \<subseteq># mset (f x) + mset (concat (map f ks))"
      by (rule subset_mset.add_mono)
    then show ?thesis by (simp add: add_mset_commute)
  next
    case False
    show ?thesis
    proof (cases "x = k2")
      case True
      with Cons.prems have "{#b#} \<subseteq># mset (f x)" and "{#a#} \<subseteq># mset (concat (map f ks))"
        by (auto intro: single)
      then have "{#b#} + {#a#} \<subseteq># mset (f x) + mset (concat (map f ks))"
        by (rule subset_mset.add_mono)
      then show ?thesis by simp
    next
      case x2: False
      with False Cons have "{#a, b#} \<subseteq># mset (concat (map f ks))"
        by simp
      then show ?thesis
        by (simp add: subset_mset.add_increasing)
    qed
  qed
qed

section \<open>Identity of manifests\<close>

text \<open>
  Claim C9. Two manifests have the same Identifier exactly when their kind, their
  metadata name and their metadata namespace agree pairwise. Replacing the body, the
  labels or the resource version of a manifest leaves its Identifier as it was, and two
  Identifier values are equal exactly when their three fields are.
\<close>

theorem Identifier_eq_iff:
  "((Identifier m1 = Identifier m2) =
      (manifest_kind m1 = manifest_kind m2 \<and>
       meta_name (manifest_metadata m1) = meta_name (manifest_metadata m2) \<and>
       meta_namespace (manifest_metadata m1) = meta_namespace (manifest_metadata m2))) \<and>
   Identifier (m\<lparr>manifest_body := b\<rparr>) = Identifier m \<and>
   Identifier (m\<lparr>manifest_metadata :=
       (manifest_metadata m)\<lparr>meta_labels := ls, meta_resourceVersion := rv\<rparr>\<rparr>) = Identifier m \<and>
   (((i1 :: Identifier) = i2) =
      (Kind i1 = Kind i2 \<and> Name i1 = Name i2 \<and> Namespace i1 = Namespace i2))"
  by (auto simp: Identifier_def)

lemmas example_defs =
  example_k_def example_client_def example_config_def example_info_def
  example_SubsetDiffer_def healthy_def secrets_forbidden_def doubled_def

section \<open>Orphan detection: what is returned\<close>

lemma healthy_returned_lists:
  "returned_lists (example_k healthy) = [deployment ''api'' ''v1'', deployment ''worker'' ''v1'']"
  by (simp add: returned_lists_def queries_issued_eq query_for_def fst_parallelGetByLabels
      query_result_def example_defs kinds_def)

lemma doubled_listOrphaned:
  "listOrphaned (example_k doubled) [] [deployment ''api'' ''v0''] =
     Returns (Some [deployment ''worker'' ''v1'', deployment ''worker'' ''v2''], None)"
  by (simp add: listOrphaned_def spawn_def parallelGetByLabels_def query_result_def
      example_defs kinds_def make_known_def lookup_def Identifier_def deployment_def)

text \<open>
  Claim C1. When none of the queries of a call fails, \<^verbatim>\<open>listOrphaned\<close> returns, under
  every choice of the scheduler, a list and no error, and the list holds exactly the
  manifests returned by the queries whose Identifier is not the Identifier of a manifest
  of the desired state, each as often as the queries returned it (the order is the order
  of arrival). With an empty desired state this is everything the queries returned; when
  every returned manifest is in the desired state the list is empty.
\<close>

theorem listOrphaned_difference:
  assumes "\<forall>q \<in> set (queries_issued k). snd (query_result k q) = None"
  shows "\<exists>orphaned. listOrphaned k sched state = Returns (Some orphaned, None) \<and>
           mset orphaned =
             filter_mset (\<lambda>m. Identifier m \<notin> Identifier ` set state) (mset (returned_lists k)) \<and>
           (state = [] \<longrightarrow> mset orphaned = mset (returned_lists k)) \<and>
           (set (returned_lists k) \<subseteq> set state \<longrightarrow> orphaned = [])"
proof -
  let ?P = "\<lambda>m. Identifier m \<notin> Identifier ` set state"
  let ?orphaned = "filter ?P (lists_of (observed k sched))"
  from listOrphaned_no_failure [OF assms, of sched state]
  have res: "listOrphaned k sched state = Returns (Some ?orphaned, None)"
    and all: "mset (lists_of (observed k sched)) = mset (returned_lists k)"
    by simp_all
  from all have eq: "mset ?orphaned = filter_mset ?P (mset (returned_lists k))"
    by simp
  have "state = [] \<longrightarrow> mset ?orphaned = mset (returned_lists k)"
    by (simp add: all)
  moreover have "set (returned_lists k) \<subseteq> set state \<longrightarrow> ?orphaned = []"
  proof
    assume "set (returned_lists k) \<subseteq> set state"
    then have "filter_mset ?P (mset (returned_lists k)) = {#}"
      by auto
    with eq have "mset ?orphaned = {#}" by (simp only:)
    then show "?orphaned = []" by (simp only: mset_zero_iff)
  qed
  ultimately show ?thesis using res eq by (intro exI [of _ ?orphaned] conjI)
qed

theorem listOrphaned_difference_witness:
  "\<exists>orphaned. listOrphaned (example_k healthy) [] [deployment ''api'' ''v0''] =
       Returns (Some orphaned, None) \<and>
     mset orphaned = {#deployment ''worker'' ''v1''#}"
proof -
  have ok: "\<forall>q \<in> set (queries_issued (example_k healthy)).
              snd (query_result (example_k healthy) q) = None"
    by (simp add: query_result_def example_defs)
  from listOrphaned_difference [OF ok, of "[]" "[deployment ''api'' ''v0'']"]
  show ?thesis
    by (simp add: healthy_returned_lists Identifier_def deployment_def)
qed

text \<open>
  Claim C10. The orphan list is compared with the desired state only, not with itself:
  when \<^verbatim>\<open>listOrphaned\<close> returns a list and the queries of two different kinds each
  returned a manifest with the same Identifier, one that no manifest of the desired
  state has, both manifests are in the list.
\<close>

theorem listOrphaned_keeps_duplicates:
  assumes res: "listOrphaned k sched state = Returns (Some orphaned, None)"
    and kinds: "kind1 \<in> set kinds" "kind2 \<in> set kinds" "kind1 \<noteq> kind2"
    and m1: "m1 \<in> set (fst (query_result k (query_for k kind1)))"
    and m2: "m2 \<in> set (fst (query_result k (query_for k kind2)))"
    and same: "Identifier m1 = Identifier m2"
    and new: "Identifier m1 \<notin> Identifier ` set state"
  shows "{#m1, m2#} \<subseteq># mset orphaned"
proof -
  let ?P = "\<lambda>m. Identifier m \<notin> Identifier ` set state"
  have ok: "\<forall>q \<in> set (queries_issued k). snd (query_result k q) = None"
  proof (rule ccontr)
    assume "\<not> ?thesis"
    then have "\<exists>q \<in> set (queries_issued k). snd (query_result k q) \<noteq> None"
      by simp
    from listOrphaned_some_failure [OF this, of sched state] res show False
      by simp
  qed
  from listOrphaned_no_failure [OF ok, of sched state] res
  have "mset orphaned = filter_mset ?P (mset (returned_lists k))"
    by auto
  moreover have "{#m1, m2#} \<subseteq># mset (returned_lists k)"
    unfolding returned_lists_def queries_issued_eq map_map o_def
    using kinds m1 m2 by (rule pair_in_concat)
  then have "filter_mset ?P {#m1, m2#} \<subseteq># filter_mset ?P (mset (returned_lists k))"
    by (rule multiset_filter_mono)
  moreover have "filter_mset ?P {#m1, m2#} = {#m1, m2#}"
    using same new by simp
  ultimately show ?thesis by simp
qed

theorem listOrphaned_keeps_duplicates_witness:
  "listOrphaned (example_k doubled) [] [deployment ''api'' ''v0''] =
     Returns (Some [deployment ''worker'' ''v1'', deployment ''worker'' ''v2''], None) \<and>
   Identifier (deployment ''worker'' ''v1'') = Identifier (deployment ''worker'' ''v2'') \<and>
   {#deployment ''worker'' ''v1'', deployment ''worker'' ''v2''#} \<subseteq>#
     mset [deployment ''worker'' ''v1'', deployment ''worker'' ''v2'']"
proof -
  let ?k = "example_k doubled" and ?state = "[deployment ''api'' ''v0'']"
  have kinds: "''Deployment'' \<in> set kinds" "''ReplicaSet'' \<in> set kinds"
      "''Deployment'' \<noteq> ''ReplicaSet''"
    by (simp_all add: kinds_def)
  have m1: "deployment ''worker'' ''v1'' \<in>
              set (fst (query_result ?k (query_for ?k ''Deployment'')))"
    by (simp add: query_for_def fst_parallelGetByLabels query_result_def example_defs)
  have m2: "deployment ''worker'' ''v2'' \<in>
              set (fst (query_result ?k (query_for ?k ''ReplicaSet'')))"
    by (simp add: query_for_def fst_parallelGetByLabels query_result_def example_defs)
  have same: "Identifier (deployment ''worker'' ''v1'') = Identifier (deployment ''worker'' ''v2'')"
    by (simp add: Identifier_def deployment_def)
  have new: "Identifier (deployment ''worker'' ''v1'') \<notin> Identifier ` set ?state"
    by (simp add: Identifier_def deployment_def)
  from listOrphaned_keeps_duplicates [OF doubled_listOrphaned kinds m1 m2 same new]
    doubled_listOrphaned same
  show ?thesis by (intro conjI)
qed

text \<open>
  Claim C2, evaluated where the claim fails. The query for kind Secret fails and all
  others succeed. The loop receives the wrapped error of that query, and nothing else
  on \<^verbatim>\<open>e\<close>, so \<^verbatim>\<open>lastErr\<close> is set; but the goroutine of the failed query has sent twice,
  one send is left over when the channels are closed (with this schedule the list of the
  kind started last), and the call ends in the panic of the sender left over and not in
  the return of the error.
\<close>

theorem listOrphaned_failure_panics:
  "errors_of (observed (example_k secrets_forbidden) []) =
     [Wrap (Err ''forbidden'') (getting_orphans ''Secret'')] \<and>
   abandoned_sends (example_k secrets_forbidden) [] [deployment ''api'' ''v0''] = [R []] \<and>
   listOrphaned (example_k secrets_forbidden) [] [deployment ''api'' ''v0''] = Panics"
  by (simp add: listOrphaned_def abandoned_sends_def observed_def spawn_def
      parallelGetByLabels_def query_result_def example_defs kinds_def make_known_def
      lookup_def Identifier_def deployment_def)

section \<open>Orphan detection: the goroutines\<close>

lemma parallelGetByLabels_on_error:
  "query_result k (fst (parallelGetByLabels k kind envName)) = (list, Some cause) \<Longrightarrow>
   snd (parallelGetByLabels k kind envName) =
     [E (Wrap cause (getting_orphans kind)), R list]"
  by (simp add: snd_parallelGetByLabels fst_parallelGetByLabels)

text \<open>
  Claim C4, evaluated where the claim fails. The goroutine for kind Secret, whose query
  fails, sends the wrapped error on \<^verbatim>\<open>e\<close> and then, after it, the nil list on \<^verbatim>\<open>r\<close>:
  two messages, one on each channel. The loop receives one message for each kind, so with
  this schedule one send (the list of the kind started last) is still waiting when the
  channels are closed.
\<close>

theorem parallelGetByLabels_sends_twice:
  "snd (parallelGetByLabels (example_k secrets_forbidden) ''Secret'' ''default'') =
     [E (Wrap (Err ''forbidden'') (getting_orphans ''Secret'')), R []] \<and>
   abandoned_sends (example_k secrets_forbidden) [] [] = [R []]"
  by (simp add: abandoned_sends_def spawn_def parallelGetByLabels_def query_result_def
      example_defs kinds_def make_known_def)

text \<open>
  Claim C5 as the spec words it: every query asks in the configured namespace of the
  environment. For the environment with namespace \<open>prod\<close> the query for kind ConfigMap
  passes the empty namespace.
\<close>

theorem queries_namespace_counterexample:
  "q_kind (hd (queries_issued (example_k healthy))) = ''ConfigMap'' \<and>
   q_namespace (hd (queries_issued (example_k healthy))) = [] \<and>
   EnvNamespace (Spec (Env (example_k healthy))) = ''prod'' \<and>
   q_namespace (hd (queries_issued (example_k healthy))) \<noteq>
     EnvNamespace (Spec (Env (example_k healthy)))"
  by (simp add: queries_issued_def spawn_def fst_parallelGetByLabels kinds_def example_defs)

text \<open>
  Claim C5, amended. Every call starts one goroutine, and with it one query, for each of
  the 21 kinds of the catalog, which are pairwise different, whatever the queries return.
  Each query names its kind, passes the empty string as namespace and the single label
  \<^verbatim>\<open>LabelEnvironment\<close> with the name label of the environment as value.
\<close>

theorem queries_issued_catalog:
  "queries_issued k =
     map (\<lambda>kind. \<lparr> q_namespace = [], q_kind = kind,
                     q_labels = [LabelEnvironment \<mapsto> NameLabel (Metadata (Env k))] \<rparr>) kinds \<and>
   map q_kind (queries_issued k) = kinds \<and> length kinds = 21 \<and> distinct kinds"
proof -
  have "queries_issued k =
     map (\<lambda>kind. \<lparr> q_namespace = [], q_kind = kind,
                     q_labels = [LabelEnvironment \<mapsto> NameLabel (Metadata (Env k))] \<rparr>) kinds"
    by (simp add: queries_issued_def spawn_def fst_parallelGetByLabels)
  moreover from this have "map q_kind (queries_issued k) = kinds"
    by (simp add: o_def)
  moreover have "length kinds = 21"
    by (simp add: kinds_def)
  moreover have "distinct kinds"
    by (simp add: kinds_def)
  ultimately show ?thesis by (intro conjI)
qed

section \<open>Apply: what it does\<close>

lemma Apply_never_mutates:
  "Apply Confirm k sched state opts = Returns (err, effects) \<Longrightarrow> filter mutates effects = []"
  by (auto simp: Apply_def o_def split: outcome.splits prod.splits option.splits)

text \<open>
  Claim C3, evaluated where the claim fails. With and without \<^verbatim>\<open>AutoApprove\<close>,
  \<^verbatim>\<open>Apply\<close> on a healthy cluster returns nil after printing the orphans: it asks for
  no confirmation and never calls the client's \<^verbatim>\<open>Apply\<close>.
\<close>

theorem Apply_only_lists_orphans:
  "Apply confirm_yes (example_k healthy) [] [deployment ''api'' ''v0''] \<lparr> AutoApprove = True \<rparr> =
     Returns (None, [Println ''orphan'', PrintlnIdentifier (Identifier (deployment ''worker'' ''v1''))]) \<and>
   Apply confirm_yes (example_k healthy) [] [deployment ''api'' ''v0''] \<lparr> AutoApprove = False \<rparr> =
     Returns (None, [Println ''orphan'', PrintlnIdentifier (Identifier (deployment ''worker'' ''v1''))])"
  by (simp add: Apply_def listOrphaned_def spawn_def parallelGetByLabels_def query_result_def
      example_defs kinds_def make_known_def lookup_def Identifier_def deployment_def)

section \<open>Strategy selection and Diff\<close>

text \<open>
  Claim C6. When the client can be created and answers \<^verbatim>\<open>Info\<close>, \<^verbatim>\<open>New\<close> returns an
  engine whose diff strategy is the configured one if that is not empty, and otherwise
  \<open>subset\<close> if the server version is lower than 1.13.0 and \<open>native\<close> if it is not.
  Lower is meant as semantic versions are ordered: major or minor number lower, or
  1.13.0 with a pre-release tag.
\<close>

theorem New_default_strategy:
  assumes "client_New (APIServer (Spec c)) = (Some cl, None)"
    and "ctl_Info cl = (Some i, None)"
  shows "\<exists>k. New client_New SubsetDiffer comparePrerelease c = Returns (Some k, None) \<and>
           DiffStrategy (Spec (Env k)) =
             (if DiffStrategy (Spec c) \<noteq> [] then DiffStrategy (Spec c)
              else if LessThan comparePrerelease (ServerVersion i) MustParse_1_13_0
                   then ''subset'' else ''native'') \<and>
           LessThan comparePrerelease (ServerVersion i) MustParse_1_13_0 =
             (Major (ServerVersion i) < 1 \<or>
              Major (ServerVersion i) = 1 \<and> Minor (ServerVersion i) < 13 \<or>
              Major (ServerVersion i) = 1 \<and> Minor (ServerVersion i) = 13 \<and>
                Patch (ServerVersion i) = 0 \<and> Prerelease (ServerVersion i) \<noteq> [])"
proof -
  have "LessThan comparePrerelease (ServerVersion i) MustParse_1_13_0 =
             (Major (ServerVersion i) < 1 \<or>
              Major (ServerVersion i) = 1 \<and> Minor (ServerVersion i) < 13 \<or>
              Major (ServerVersion i) = 1 \<and> Minor (ServerVersion i) = 13 \<and>
                Patch (ServerVersion i) = 0 \<and> Prerelease (ServerVersion i) \<noteq> [])"
    by (auto simp: LessThan_def Compare_def compareSegment_def MustParse_1_13_0_def)
  with assms show ?thesis
    by (simp add: New_def Let_def)
qed

theorem New_default_strategy_witness:
  "(\<exists>k. New (\<lambda>server. (Some (example_client (release 1 12 9) healthy), None))
          example_SubsetDiffer (\<lambda>a b. 0) (example_config []) = Returns (Some k, None) \<and>
        DiffStrategy (Spec (Env k)) = ''subset'') \<and>
   (\<exists>k. New (\<lambda>server. (Some (example_client (release 1 13 0) healthy), None))
          example_SubsetDiffer (\<lambda>a b. 0) (example_config []) = Returns (Some k, None) \<and>
        DiffStrategy (Spec (Env k)) = ''native'') \<and>
   (\<exists>k. New (\<lambda>server. (Some (example_client (release 1 13 1) healthy), None))
          example_SubsetDiffer (\<lambda>a b. 0) (example_config []) = Returns (Some k, None) \<and>
        DiffStrategy (Spec (Env k)) = ''native'') \<and>
   (\<exists>k. New (\<lambda>server. (Some (example_client (release 1 9 0) healthy), None))
          example_SubsetDiffer (\<lambda>a b. 0) (example_config []) = Returns (Some k, None) \<and>
        DiffStrategy (Spec (Env k)) = ''subset'') \<and>
   (\<exists>k. New (\<lambda>server. (Some (example_client (release 1 9 0) healthy), None))
          example_SubsetDiffer (\<lambda>a b. 0) (example_config ''native'') = Returns (Some k, None) \<and>
        DiffStrategy (Spec (Env k)) = ''native'')"
proof -
  have w: "\<exists>k. New (\<lambda>server. (Some (example_client v healthy), None))
               example_SubsetDiffer (\<lambda>a b. 0) (example_config s) = Returns (Some k, None) \<and>
             DiffStrategy (Spec (Env k)) =
               (if s \<noteq> [] then s
                else if LessThan (\<lambda>a b. 0) v MustParse_1_13_0 then ''subset'' else ''native'')"
    for v s
  proof -
    have i: "ctl_Info (example_client v healthy) = (Some (example_info v), None)"
      by (simp add: example_client_def)
    from New_default_strategy [where client_New = "\<lambda>server. (Some (example_client v healthy), None)"
        and c = "example_config s" and SubsetDiffer = example_SubsetDiffer
        and comparePrerelease = "\<lambda>a b. 0", OF refl i]
    obtain k where
      "New (\<lambda>server. (Some (example_client v healthy), None))
         example_SubsetDiffer (\<lambda>a b. 0) (example_config s) = Returns (Some k, None)"
      "DiffStrategy (Spec (Env k)) =
         (if DiffStrategy (Spec (example_config s)) \<noteq> [] then DiffStrategy (Spec (example_config s))
          else if LessThan (\<lambda>a b. 0) (ServerVersion (example_info v)) MustParse_1_13_0
               then ''subset'' else ''native'')"
      by blast
    then show ?thesis
      by (intro exI [of _ k]) (simp add: example_info_def example_config_def)
  qed
  have "LessThan (\<lambda>a b. 0) (release 1 12 9) MustParse_1_13_0"
    "\<not> LessThan (\<lambda>a b. 0) (release 1 13 0) MustParse_1_13_0"
    "\<not> LessThan (\<lambda>a b. 0) (release 1 13 1) MustParse_1_13_0"
    "LessThan (\<lambda>a b. 0) (release 1 9 0) MustParse_1_13_0"
    by (simp_all add: LessThan_def Compare_def compareSegment_def MustParse_1_13_0_def release_def)
  with w [of "release 1 12 9" "[]"] w [of "release 1 13 0" "[]"] w [of "release 1 13 1" "[]"]
    w [of "release 1 9 0" "[]"] w [of "release 1 9 0" "''native''"]
  show ?thesis
    by simp
qed

text \<open>
  Claim C7 as the spec words it: an unregistered name makes \<^verbatim>\<open>Diff\<close> return an error.
  The name \<open>server-side\<close> is not a key of the registry, and \<^verbatim>\<open>Diff\<close> panics on it.
\<close>

theorem Diff_unknown_strategy_counterexample:
  "differs (example_k healthy) ''server-side'' = None \<and>
   Diff example_Diffstat (example_k healthy) [deployment ''api'' ''v0'']
     \<lparr> Summarize = False, Strategy = ''server-side'' \<rparr> = Panics"
  by (simp add: Diff_def example_defs)

text \<open>
  Claim C7, amended. A strategy name given with the call is used whatever the default of
  the engine is; with no name given the default is used. When the resolved name is
  registered, \<^verbatim>\<open>Diff\<close> applies the registered strategy to the desired state and passes
  its error or its result on. When it is not registered no error is returned: the call of
  the missing entry panics.
\<close>

theorem Diff_strategy_resolution:
  "(Strategy opts \<noteq> [] \<longrightarrow>
      Diff Diffstat k state opts =
      Diff Diffstat (k\<lparr>Env := (Env k)\<lparr>Spec := (Spec (Env k))\<lparr>DiffStrategy := other\<rparr>\<rparr>\<rparr>) state opts) \<and>
   (Strategy opts = [] \<longrightarrow>
      Diff Diffstat k state opts =
      Diff Diffstat k state (opts\<lparr>Strategy := DiffStrategy (Spec (Env k))\<rparr>)) \<and>
   (differs k (if Strategy opts \<noteq> [] then Strategy opts else DiffStrategy (Spec (Env k))) =
      Some differ \<longrightarrow>
      Diff Diffstat k state opts =
        (case differ state of
           (d, Some err) \<Rightarrow> Returns (None, Some err)
         | (None, None) \<Rightarrow> Returns (None, None)
         | (Some d, None) \<Rightarrow>
             if Summarize opts then Returns (Diffstat d) else Returns (Some d, None))) \<and>
   (differs k (if Strategy opts \<noteq> [] then Strategy opts else DiffStrategy (Spec (Env k))) =
      None \<longrightarrow>
      Diff Diffstat k state opts = Panics)"
  by (auto simp: Diff_def Let_def split: option.splits prod.splits)

theorem Diff_strategy_resolution_witness:
  "Diff example_Diffstat (example_k healthy) [] \<lparr> Summarize = False, Strategy = ''subset'' \<rparr> =
     Returns (Some [], None) \<and>
   Diff example_Diffstat (example_k healthy) [] \<lparr> Summarize = False, Strategy = [] \<rparr> =
     Returns (None, None) \<and>
   Diff example_Diffstat (example_k healthy) [] \<lparr> Summarize = False, Strategy = ''server-side'' \<rparr> =
     Panics \<and>
   Diff example_Diffstat
     ((example_k healthy)\<lparr>Env := (Env (example_k healthy))\<lparr>Spec :=
        (Spec (Env (example_k healthy)))\<lparr>DiffStrategy := ''server-side''\<rparr>\<rparr>\<rparr>)
     [] \<lparr> Summarize = False, Strategy = ''subset'' \<rparr> = Returns (Some [], None) \<and>
   Diff example_Diffstat (example_k healthy) [] \<lparr> Summarize = False, Strategy = ''native'' \<rparr> =
     Returns (None, None)"
proof -
  let ?k = "example_k healthy"
  let ?o1 = "\<lparr> Summarize = False, Strategy = ''subset'' \<rparr>"
  let ?o2 = "\<lparr> Summarize = False, Strategy = [] \<rparr>"
  let ?o3 = "\<lparr> Summarize = False, Strategy = ''server-side'' \<rparr>"
  have sub: "differs ?k (if Strategy ?o1 \<noteq> [] then Strategy ?o1 else DiffStrategy (Spec (Env ?k))) =
               Some (\<lambda>state. (Some [], None))"
    and nat: "differs ?k (if Strategy ?o2 \<noteq> [] then Strategy ?o2 else DiffStrategy (Spec (Env ?k))) =
               Some (\<lambda>state. (None, None))"
    and non: "differs ?k (if Strategy ?o3 \<noteq> [] then Strategy ?o3 else DiffStrategy (Spec (Env ?k))) =
               None"
    by (simp_all add: example_defs)
  note t = Diff_strategy_resolution [where Diffstat = example_Diffstat and k = ?k and state = "[]"]
  note registered = t [THEN conjunct2, THEN conjunct2, THEN conjunct1, rule_format]
  note unregistered = t [THEN conjunct2, THEN conjunct2, THEN conjunct2, rule_format]
  note override = t [THEN conjunct1, rule_format]
  note default = t [THEN conjunct2, THEN conjunct1, rule_format]
  from registered [OF sub]
  have r1: "Diff example_Diffstat ?k [] ?o1 = Returns (Some [], None)"
    by simp
  from registered [OF nat]
  have r2: "Diff example_Diffstat ?k [] ?o2 = Returns (None, None)"
    by simp
  from unregistered [OF non]
  have r3: "Diff example_Diffstat ?k [] ?o3 = Panics"
    by simp
  have "Strategy ?o1 \<noteq> []"
    by simp
  from override [OF this, of "''server-side''"] r1
  have r4: "Diff example_Diffstat
      (?k\<lparr>Env := (Env ?k)\<lparr>Spec := (Spec (Env ?k))\<lparr>DiffStrategy := ''server-side''\<rparr>\<rparr>\<rparr>)
      [] ?o1 = Returns (Some [], None)"
    by (simp only:)
  have "Strategy ?o2 = []"
    by simp
  from default [OF this] r2
  have "Diff example_Diffstat ?k [] (?o2\<lparr>Strategy := DiffStrategy (Spec (Env ?k))\<rparr>) =
          Returns (None, None)"
    by (simp only:)
  then have r5: "Diff example_Diffstat ?k [] \<lparr> Summarize = False, Strategy = ''native'' \<rparr> =
          Returns (None, None)"
    by (simp add: example_k_def example_config_def)
  from r1 r2 r3 r4 r5 show ?thesis by (intro conjI)
qed

text \<open>
  Claim C8. With the resolved strategy registered: when it reports nil and no error,
  \<^verbatim>\<open>Diff\<close> returns nil and no error; when it reports an error, \<^verbatim>\<open>Diff\<close> returns that
  error and nil for the text; an empty but present text is returned as such when no
  summary is asked for, and differs from the nil result.
\<close>

theorem Diff_no_diff:
  assumes "differs k (if Strategy opts \<noteq> [] then Strategy opts else DiffStrategy (Spec (Env k))) =
             Some differ"
  shows "(differ state = (None, None) \<longrightarrow> Diff Diffstat k state opts = Returns (None, None)) \<and>
         (snd (differ state) = Some err \<longrightarrow> Diff Diffstat k state opts = Returns (None, Some err)) \<and>
         (differ state = (Some [], None) \<and> \<not> Summarize opts \<longrightarrow>
            Diff Diffstat k state opts = Returns (Some [], None)) \<and>
         Returns (None :: string option, None :: error option) \<noteq> Returns (Some [], None)"
  using assms by (auto simp: Diff_def Let_def split: prod.splits option.splits)

theorem Diff_no_diff_witness:
  "Diff example_Diffstat (example_k healthy) [] \<lparr> Summarize = False, Strategy = ''native'' \<rparr> =
     Returns (None, None) \<and>
   Diff example_Diffstat (example_k healthy) [] \<lparr> Summarize = False, Strategy = ''subset'' \<rparr> =
     Returns (Some [], None) \<and>
   Diff example_Diffstat
     ((example_k healthy)\<lparr>differs := [''native'' \<mapsto> (\<lambda>state. (None, Some (Err ''refused'')))]\<rparr>)
     [] \<lparr> Summarize = True, Strategy = [] \<rparr> =
     Returns (None, Some (Err ''refused''))"
proof -
  let ?k = "example_k healthy"
  let ?k' = "?k\<lparr>differs := [''native'' \<mapsto> (\<lambda>state. (None, Some (Err ''refused'')))]\<rparr>"
  have nat: "differs ?k (if Strategy \<lparr> Summarize = False, Strategy = ''native'' \<rparr> \<noteq> []
               then Strategy \<lparr> Summarize = False, Strategy = ''native'' \<rparr>
               else DiffStrategy (Spec (Env ?k))) = Some (\<lambda>state. (None, None))"
    by (simp add: example_defs)
  have sub: "differs ?k (if Strategy \<lparr> Summarize = False, Strategy = ''subset'' \<rparr> \<noteq> []
               then Strategy \<lparr> Summarize = False, Strategy = ''subset'' \<rparr>
               else DiffStrategy (Spec (Env ?k))) = Some (\<lambda>state. (Some [], None))"
    by (simp add: example_defs)
  have bad: "differs ?k' (if Strategy \<lparr> Summarize = True, Strategy = [] \<rparr> \<noteq> []
               then Strategy \<lparr> Summarize = True, Strategy = [] \<rparr>
               else DiffStrategy (Spec (Env ?k'))) = Some (\<lambda>state. (None, Some (Err ''refused'')))"
    by (simp add: example_defs)
  from Diff_no_diff [OF nat, where state = "[]" and Diffstat = example_Diffstat]
  have "Diff example_Diffstat ?k [] \<lparr> Summarize = False, Strategy = ''native'' \<rparr> =
          Returns (None, None)"
    by simp
  moreover from Diff_no_diff [OF sub, where state = "[]" and Diffstat = example_Diffstat]
  have "Diff example_Diffstat ?k [] \<lparr> Summarize = False, Strategy = ''subset'' \<rparr> =
          Returns (Some [], None)"
    by simp
  moreover from Diff_no_diff [OF bad, where state = "[]" and Diffstat = example_Diffstat
      and err = "Err ''refused''"]
  have "Diff example_Diffstat ?k' [] \<lparr> Summarize = True, Strategy = [] \<rparr> =
          Returns (None, Some (Err ''refused''))"
    by simp
  ultimately show ?thesis by (intro conjI)
qed

end
